theory Spec2Isabelle
  imports Main "HOL-Library.Word"
begin

unbundle bit_operations_syntax

section \<open>si8900.h: constants and packet macros\<close>

text \<open>
  The driver is written for a target where \<open>uint8_t\<close> and \<open>uint16_t\<close> are the 8 and 16 bit
  unsigned types; they are \<open>8 word\<close> and \<open>16 word\<close> here. A conversion
  \<open>(uint16_t) b\<close> of a byte is \<open>ucast\<close>, \<open><<\<close> is \<open>push_bit\<close> and \<open>>>\<close> on an unsigned
  value is \<open>drop_bit\<close>.
\<close>

type_synonym si8900_cfg = "8 word"

definition PGA_0 :: "8 word" where "PGA_0 = 0x00"
definition PGA_1 :: "8 word" where "PGA_1 = 0x01"
definition MODE_0 :: "8 word" where "MODE_0 = 0x00"
definition MODE_1 :: "8 word" where "MODE_1 = 0x02"
definition REF_0 :: "8 word" where "REF_0 = 0x00"
definition REF_1 :: "8 word" where "REF_1 = 0x08"
definition INCH_0 :: "8 word" where "INCH_0 = 0xC0"
definition INCH_1 :: "8 word" where "INCH_1 = 0xD0"
definition INCH_2 :: "8 word" where "INCH_2 = 0xE0"

text \<open>
  The header gives the shape of a general purpose command byte as
  \<^verbatim>\<open>( (uint8_t)(<PGA_x> | <MODE_x>  | <REF_x> | <INCH_x>) )\<close>.
\<close>

definition cmd_byte_of :: "8 word \<Rightarrow> 8 word \<Rightarrow> 8 word \<Rightarrow> 8 word \<Rightarrow> si8900_cfg" where
  "cmd_byte_of pga mode ref inch = (pga OR mode OR ref OR inch)"

definition GP_SINGLE_READ_0 :: si8900_cfg where
  "GP_SINGLE_READ_0 = (INCH_0 OR REF_0 OR MODE_1 OR PGA_0)"
definition GP_SINGLE_READ_1 :: si8900_cfg where
  "GP_SINGLE_READ_1 = (INCH_1 OR REF_0 OR MODE_1 OR PGA_0)"
definition GP_SINGLE_READ_2 :: si8900_cfg where
  "GP_SINGLE_READ_2 = (INCH_2 OR REF_0 OR MODE_1 OR PGA_0)"

definition CAL_BYTE :: "8 word" where "CAL_BYTE = 0xAA"
definition CONFIRM :: "8 word" where "CONFIRM = 0x55"
definition FAILED :: "8 word" where "FAILED = 0xFF"
definition HAND_SHAKED :: "8 word" where "HAND_SHAKED = 0x88"

text \<open>\<^verbatim>\<open>#define PACKET_JOIN(b1,b2) ((uint16_t)(((uint16_t)b1) << 7 | b2))\<close>\<close>

definition PACKET_JOIN :: "8 word \<Rightarrow> 8 word \<Rightarrow> 16 word" where
  "PACKET_JOIN b1 b2 = (push_bit 7 (ucast b1 :: 16 word) OR ucast b2)"

text \<open>\<^verbatim>\<open>#define GET_INCH(packet) ((uint8_t)((packet & 0x30) >> 4))\<close>\<close>

definition GET_INCH :: "8 word \<Rightarrow> 8 word" where
  "GET_INCH packet = drop_bit 4 (packet AND 0x30)"

text \<open>\<^verbatim>\<open>#define GET_READING(packet) ((uint16_t)((packet & 0x0FFE) >> 1))\<close>\<close>

definition GET_READING :: "16 word \<Rightarrow> 16 word" where
  "GET_READING packet = drop_bit 1 (packet AND 0x0FFE)"

record si8900_reading =
  cmd_byte :: si8900_cfg
  inch :: "8 word"
  reading :: "16 word"

section \<open>si8900.c: decoding a response packet\<close>

text \<open>
  \<open>si8900_get_reading\<close> reads \<open>*(buffer)\<close>, \<open>*(buffer + 1)\<close> and \<open>*(buffer + 2)\<close> and
  nothing else of the memory behind the pointer: a buffer is the three bytes found there.
  The assignment \<open>new_read.reading = FAILED\<close> widens the byte to 16 bits.
\<close>

type_synonym buffer = "8 word \<times> 8 word \<times> 8 word"

fun si8900_get_reading :: "buffer \<Rightarrow> 8 word \<Rightarrow> si8900_reading" where
  "si8900_get_reading (b0, b1, b2) ref_byte =
     (if b0 = ref_byte
      then \<lparr>cmd_byte = b0, inch = GET_INCH b1,
            reading = GET_READING (PACKET_JOIN b1 b2)\<rparr>
      else \<lparr>cmd_byte = b0, inch = FAILED, reading = ucast FAILED\<rparr>)"

section \<open>si8900.c: undefined behaviour as error values\<close>

text \<open>
  Two statements of si8900.c have no defined result on some inputs: the division
  \<open>vals/entries\<close> when \<open>entries\<close> is zero, and the shift \<open>reverse <<= size\<close> when
  \<open>size\<close> is not smaller than the width of the shifted operand. The model returns an
  error value there instead of a number.
\<close>

datatype c_error = DivisionByZero | ShiftOutOfRange | UninitialisedRead

section \<open>si8900.c: bit\_reverse\<close>

text \<open>
  The loop \<^verbatim>\<open>for (num >>= 1; num; num >>= 1) { reverse <<= 1; reverse |= num & 1; size--; }\<close>
  as a recursive function of the three variables it changes; it is entered with
  \<open>num >> 1\<close>. \<open>size\<close> is a \<open>uint8_t\<close> and \<open>size--\<close> wraps below zero. The variable is
  called \<open>sz\<close> here.
\<close>

function bit_reverse_loop :: "16 word \<Rightarrow> 16 word \<Rightarrow> 8 word \<Rightarrow> 16 word \<times> 8 word" where
  "bit_reverse_loop num reverse sz =
     (if num \<noteq> 0
      then bit_reverse_loop (drop_bit 1 num) (push_bit 1 reverse OR (num AND 1)) (sz - 1)
      else (reverse, sz))"
  by pat_completeness auto
termination
proof (relation "measure (\<lambda>(num, reverse, sz). unat num)")
  show "wf (measure (\<lambda>(num :: 16 word, reverse :: 16 word, sz :: 8 word). unat num))"
    by simp
next
  fix num reverse :: "16 word" and sz :: "8 word"
  assume "num \<noteq> 0"
  then have "0 < unat num"
    by (simp add: unat_gt_0)
  then have "unat num div 2 < unat num"
    by simp
  moreover have "unat (drop_bit 1 num) = unat num div 2"
    unfolding unat_drop_bit_eq by (simp add: drop_bit_eq_div)
  ultimately show "((drop_bit 1 num, push_bit 1 reverse OR (num AND 1), sz - 1), (num, reverse, sz))
      \<in> measure (\<lambda>(num, reverse, sz). unat num)"
    by simp
qed

declare bit_reverse_loop.simps [simp del]

text \<open>
  \<open>size\<close> starts at \<open>sizeof(num) * sizeof(uint8_t) - 1\<close>, which is \<open>2 * 1 - 1 = 1\<close>.
  The final \<open>reverse <<= size\<close> shifts a 16 bit operand (\<open>int\<close> has 16 bits on the
  MSP430 the header asks for): a count of 16 or more is undefined. With a 32 bit \<open>int\<close>
  the bound would be 32; the counts the loop can leave are 0, 1 and 242 to 255, so the
  two bounds give the same model.
\<close>

definition bit_reverse :: "16 word \<Rightarrow> c_error + 16 word" where
  "bit_reverse num =
     (case bit_reverse_loop (drop_bit 1 num) num 1 of
        (reverse, sz) \<Rightarrow>
          if unat sz < 16 then Inr (push_bit (unat sz) reverse) else Inl ShiftOutOfRange)"

section \<open>si8900.c: si8900\_auto\_baud\<close>

text \<open>
  The handshake reads the UART. \<open>rx n\<close> is the byte the \<open>n\<close>-th read of \<open>UART_RX_BUFF\<close>
  returns, that is the \<open>n\<close>-th byte the device sends; the busy wait on the receive flag
  in front of each read ends when that byte has arrived. The writes of \<open>CAL_BYTE\<close> to
  \<open>UART_TX_BUFF\<close> are outputs that no branch of the function reads back; the model
  keeps the received bytes, the two flags \<open>Code_receive\<close> and \<open>Code_confirm\<close> and the
  position in the byte stream.

  The loop may run forever: it is a partial function, \<open>None\<close> when it does not return.
  When it returns, the result is the function's return value \<open>0\<close> together with the
  number of bytes read from the UART. \<open>hold_value\<close> is a \<open>char\<close> compared with
  \<open>CONFIRM\<close>; \<open>0x55\<close> is positive in either signedness of \<open>char\<close>, so the comparison
  is true exactly for the received byte \<open>0x55\<close>.
\<close>

record auto_baud_flags =
  Code_receive :: "8 word"
  Code_confirm :: "8 word"

text \<open>
  The body of the outer \<open>while\<close> after \<open>hold_value = UART_RX_BUFF\<close>: the \<open>if\<close> on
  \<open>hold_value == CONFIRM\<close> with its two assignments, and the \<open>else\<close> that clears both
  flags.
\<close>

definition auto_baud_body :: "8 word \<Rightarrow> auto_baud_flags \<Rightarrow> auto_baud_flags" where
  "auto_baud_body hold_value f =
     (if hold_value = CONFIRM
      then (if Code_receive f = 1 then f\<lparr>Code_confirm := 1\<rparr> else f)\<lparr>Code_receive := 1\<rparr>
      else f\<lparr>Code_receive := 0, Code_confirm := 0\<rparr>)"

text \<open>\<^verbatim>\<open>while ((Code_receive & Code_confirm) == 0) { ... } return 0;\<close>\<close>

partial_function (option) auto_baud_loop ::
  "(nat \<Rightarrow> 8 word) \<Rightarrow> nat \<Rightarrow> auto_baud_flags \<Rightarrow> (8 word \<times> nat) option" where
  "auto_baud_loop rx n f =
     (if (Code_receive f AND Code_confirm f) = 0
      then auto_baud_loop rx (Suc n) (auto_baud_body (rx n) f)
      else Some (0, n))"

definition si8900_auto_baud :: "(nat \<Rightarrow> 8 word) \<Rightarrow> (8 word \<times> nat) option" where
  "si8900_auto_baud rx = auto_baud_loop rx 0 \<lparr>Code_receive = 0, Code_confirm = 0\<rparr>"

text \<open>
  A byte stream given by its first bytes, followed by one byte repeated for ever.
\<close>

definition rx_stream :: "8 word list \<Rightarrow> 8 word \<Rightarrow> nat \<Rightarrow> 8 word" where
  "rx_stream bs b n = (if n < length bs then bs ! n else b)"

text \<open>Two consecutive confirmation bytes at positions \<open>k\<close> and \<open>k + 1\<close> of the stream.\<close>

definition confirm_pair :: "(nat \<Rightarrow> 8 word) \<Rightarrow> nat \<Rightarrow> bool" where
  "confirm_pair rx k = (rx k = CONFIRM \<and> rx (Suc k) = CONFIRM)"

section \<open>si8900.c: si8900\_get\_reading\_oversampled\<close>

text \<open>
  The function decodes the memory at \<open>buffer\<close> once per attempt. What is found there can
  differ between attempts (the receive path refills the buffer): \<open>buffer i\<close> is the
  content at attempt \<open>i\<close>. \<open>temp\<close> is not initialised before the loop, so it is an
  option. The test \<open>temp.reading != FAILED\<close> compares the 16 bit reading with \<open>0xFF\<close>;
  \<open>vals\<close> is a \<open>uint16_t\<close> and \<open>vals += temp.reading\<close> wraps at \<open>2 ^ 16\<close>.
\<close>

record oversample_state =
  temp :: "si8900_reading option"
  vals :: "16 word"
  entries :: "8 word"

definition oversample_body ::
  "(nat \<Rightarrow> buffer) \<Rightarrow> 8 word \<Rightarrow> nat \<Rightarrow> oversample_state \<Rightarrow> oversample_state" where
  "oversample_body buffer ref_byte i s =
     (let t = si8900_get_reading (buffer i) ref_byte in
      if reading t \<noteq> ucast FAILED
      then \<lparr>temp = Some t, vals = vals s + reading t, entries = entries s + 1\<rparr>
      else s\<lparr>temp := Some t\<rparr>)"

text \<open>\<^verbatim>\<open>for (i = 0; i < sample_count; i++)\<close> with the \<open>uint8_t\<close> counter \<open>i\<close>.\<close>

function oversample_loop ::
  "(nat \<Rightarrow> buffer) \<Rightarrow> 8 word \<Rightarrow> 8 word \<Rightarrow> 8 word \<Rightarrow> oversample_state \<Rightarrow> oversample_state" where
  "oversample_loop buffer ref_byte sample_count i s =
     (if i < sample_count
      then oversample_loop buffer ref_byte sample_count (i + 1)
             (oversample_body buffer ref_byte (unat i) s)
      else s)"
  by pat_completeness auto
termination
proof (relation "measure (\<lambda>(buffer, ref_byte, sample_count, i, s). unat sample_count - unat i)")
  show "wf (measure (\<lambda>(buffer :: nat \<Rightarrow> buffer, ref_byte :: 8 word, sample_count :: 8 word,
      i :: 8 word, s :: oversample_state). unat sample_count - unat i))"
    by simp
next
  fix buffer :: "nat \<Rightarrow> buffer" and ref_byte sample_count i :: "8 word"
    and s :: oversample_state
  assume lt: "i < sample_count"
  then have "unat i < unat sample_count"
    by (simp add: word_less_nat_alt)
  moreover have "unat i + unat (1 :: 8 word) < 2 ^ LENGTH(8)"
    using \<open>unat i < unat sample_count\<close> unsigned_less [of sample_count, where ?'a = nat]
    by simp
  then have "unat (i + 1) = Suc (unat i)"
    by (simp add: unat_add_lem [THEN iffD1])
  ultimately show "((buffer, ref_byte, sample_count, i + 1,
        oversample_body buffer ref_byte (unat i) s),
       (buffer, ref_byte, sample_count, i, s))
      \<in> measure (\<lambda>(buffer, ref_byte, sample_count, i, s). unat sample_count - unat i)"
    by simp
qed

declare oversample_loop.simps [simp del]

text \<open>
  After the loop \<open>temp.reading = vals/entries; return temp;\<close>. The division comes first:
  with \<open>entries = 0\<close> it has no result. \<open>temp\<close> is still uninitialised only when the loop
  body never ran, and then \<open>entries\<close> is zero.
\<close>

definition si8900_get_reading_oversampled ::
  "(nat \<Rightarrow> buffer) \<Rightarrow> 8 word \<Rightarrow> 8 word \<Rightarrow> c_error + si8900_reading" where
  "si8900_get_reading_oversampled buffer ref_byte sample_count =
     (let s = oversample_loop buffer ref_byte sample_count 0
                \<lparr>temp = None, vals = 0, entries = 0\<rparr> in
      if entries s = 0 then Inl DivisionByZero
      else case temp s of
             None \<Rightarrow> Inl UninitialisedRead
           | Some t \<Rightarrow> Inr (t\<lparr>reading := vals s div ucast (entries s)\<rparr>))"

text \<open>
  The buffer contents over the attempts, given by the contents at the first attempts
  and one content found at every later attempt.
\<close>

definition snapshots :: "buffer list \<Rightarrow> buffer \<Rightarrow> nat \<Rightarrow> buffer" where
  "snapshots bs b i = (if i < length bs then bs ! i else b)"

text \<open>
  The attempts that \<open>si8900_get_reading_oversampled\<close> counts as successful are those
  whose decoded reading differs from \<open>0xFF\<close>; the attempts that pass the echo validation
  are those whose first byte is the reference byte.
\<close>

definition counted :: "(nat \<Rightarrow> buffer) \<Rightarrow> 8 word \<Rightarrow> nat \<Rightarrow> bool" where
  "counted buffer ref_byte i = (reading (si8900_get_reading (buffer i) ref_byte) \<noteq> 0xFF)"

definition echo_ok :: "(nat \<Rightarrow> buffer) \<Rightarrow> 8 word \<Rightarrow> nat \<Rightarrow> bool" where
  "echo_ok buffer ref_byte i = (fst (buffer i) = ref_byte)"

definition reading_at :: "(nat \<Rightarrow> buffer) \<Rightarrow> 8 word \<Rightarrow> nat \<Rightarrow> nat" where
  "reading_at buffer ref_byte i = unat (reading (si8900_get_reading (buffer i) ref_byte))"

section \<open>The device's side of the wire format\<close>

text \<open>
  The two data bytes the device sends for channel \<open>c\<close> and the 10 bit reading \<open>r\<close>, from
  the layout in si8900.h (\<open>Data Byte 1: 1 0 INCH{2} D9-D6{4}\<close>,
  \<open>Data Byte 2: 0 D5-D0{6} 0\<close>).
\<close>

definition data_byte1 :: "8 word \<Rightarrow> 16 word \<Rightarrow> 8 word" where
  "data_byte1 c r = (0x80 OR push_bit 4 c OR ucast (drop_bit 6 r))"

definition data_byte2 :: "16 word \<Rightarrow> 8 word" where
  "data_byte2 r = push_bit 1 (ucast (r AND 0x3F))"

text \<open>
  The attempts of a call that pass the echo validation, in order.
\<close>

definition successes :: "(nat \<Rightarrow> buffer) \<Rightarrow> 8 word \<Rightarrow> 8 word \<Rightarrow> nat list" where
  "successes buffer ref_byte sample_count =
     filter (echo_ok buffer ref_byte) [0..<unat sample_count]"

section \<open>The flag states the handshake loop passes through\<close>

text \<open>
  At the head of the loop, with \<open>n\<close> bytes read: both flags clear; or \<open>Code_receive\<close> set
  and the last byte read was a confirmation byte; or both set and the last two bytes read
  were confirmation bytes.
\<close>

definition ab_inv :: "(nat \<Rightarrow> 8 word) \<Rightarrow> nat \<Rightarrow> auto_baud_flags \<Rightarrow> bool" where
  "ab_inv rx n f =
     ((Code_receive f = 0 \<and> Code_confirm f = 0)
      \<or> (Code_receive f = 1 \<and> Code_confirm f = 0 \<and> 0 < n \<and> rx (n - 1) = CONFIRM)
      \<or> (Code_receive f = 1 \<and> Code_confirm f = 1 \<and> 2 \<le> n \<and> confirm_pair rx (n - 2)))"

section \<open>Bits of bytes and words\<close>

lemma word16_eqI:
  fixes a b :: "16 word"
  assumes "\<forall>n \<in> {0, 1, 2, 3, 4, 5, 6, 7, 8, 9, 10, 11, 12, 13, 14, 15}. bit a n = bit b n"
  shows "a = b"
proof (rule bit_word_eqI)
  fix n :: nat
  assume "n < LENGTH(16)"
  then have "n < 16" by simp
  then have "n \<in> {0, 1, 2, 3, 4, 5, 6, 7, 8, 9, 10, 11, 12, 13, 14, 15}"
    by simp arith
  with assms show "bit a n = bit b n" by (rule bspec)
qed

lemma word8_eqI:
  fixes a b :: "8 word"
  assumes "\<forall>n \<in> {0, 1, 2, 3, 4, 5, 6, 7}. bit a n = bit b n"
  shows "a = b"
proof (rule bit_word_eqI)
  fix n :: nat
  assume "n < LENGTH(8)"
  then have "n < 8" by simp
  then have "n \<in> {0, 1, 2, 3, 4, 5, 6, 7}"
    by simp arith
  with assms show "bit a n = bit b n" by (rule bspec)
qed

lemma word_high_bits:
  fixes r :: "'a::len word"
  assumes "unat r < 2 ^ k" and "k \<le> n"
  shows "\<not> bit r n"
proof
  assume b: "bit r n"
  note assms(1)
  also have "(2::nat) ^ k \<le> 2 ^ n"
    using assms(2) by (rule power_increasing) simp
  finally have "\<not> bit (unat r) n"
    by (simp add: bit_iff_odd)
  with b show False
    by (simp add: bit_unsigned_iff)
qed

lemma reading_high_bits:
  fixes r :: "16 word"
  assumes "r \<le> 1023"
  shows "\<not> bit r 10" "\<not> bit r 11" "\<not> bit r 12" "\<not> bit r 13" "\<not> bit r 14" "\<not> bit r 15"
proof -
  have "unat r \<le> 1023"
    using assms by (simp only: word_le_nat_alt) simp
  then have "unat r < 2 ^ 10" by simp
  from word_high_bits [OF this]
  show "\<not> bit r 10" "\<not> bit r 11" "\<not> bit r 12" "\<not> bit r 13" "\<not> bit r 14" "\<not> bit r 15"
    by simp_all
qed

lemma inch_high_bits:
  fixes c :: "8 word"
  assumes "c \<le> 3"
  shows "\<not> bit c 2" "\<not> bit c 3" "\<not> bit c 4" "\<not> bit c 5" "\<not> bit c 6" "\<not> bit c 7"
proof -
  have "unat c \<le> 3"
    using assms by (simp only: word_le_nat_alt) simp
  then have "unat c < 2 ^ 2" by simp
  from word_high_bits [OF this]
  show "\<not> bit c 2" "\<not> bit c 3" "\<not> bit c 4" "\<not> bit c 5" "\<not> bit c 6" "\<not> bit c 7"
    by simp_all
qed

lemma GET_READING_wire:
  fixes r :: "16 word"
  assumes "r \<le> 1023"
  shows "GET_READING (PACKET_JOIN (data_byte1 c r) (data_byte2 r)) =
           (r OR push_bit 10 (ucast (c AND 1)))"
  unfolding GET_READING_def PACKET_JOIN_def data_byte1_def data_byte2_def
  by (rule word16_eqI)
    (simp add: bit_simps reading_high_bits [OF assms] del: push_bit_Suc)

lemma GET_INCH_wire:
  assumes "c \<le> 3" and "r \<le> 1023"
  shows "GET_INCH (data_byte1 c r) = c"
  unfolding GET_INCH_def data_byte1_def
  by (rule word8_eqI)
    (simp add: bit_simps reading_high_bits [OF assms(2)] inch_high_bits [OF assms(1)]
      del: push_bit_Suc)

lemma GET_INCH_le: "GET_INCH b \<le> 3"
proof -
  have "GET_INCH b = GET_INCH b AND 3"
    unfolding GET_INCH_def
    by (rule word8_eqI) (simp add: bit_simps)
  then show ?thesis
    by (metis word_and_le1)
qed

section \<open>The handshake loop\<close>

lemma auto_baud_loop_exit:
  "(Code_receive f AND Code_confirm f) \<noteq> 0 \<Longrightarrow> auto_baud_loop rx n f = Some (0, n)"
  by (subst auto_baud_loop.simps) simp

lemma auto_baud_loop_idle:
  "auto_baud_loop rx n \<lparr>Code_receive = 0, Code_confirm = 0\<rparr> =
     (if rx n = CONFIRM
      then auto_baud_loop rx (Suc n) \<lparr>Code_receive = 1, Code_confirm = 0\<rparr>
      else auto_baud_loop rx (Suc n) \<lparr>Code_receive = 0, Code_confirm = 0\<rparr>)"
  by (subst auto_baud_loop.simps) (simp add: auto_baud_body_def)

lemma auto_baud_loop_received:
  "auto_baud_loop rx n \<lparr>Code_receive = 1, Code_confirm = 0\<rparr> =
     (if rx n = CONFIRM
      then Some (0, Suc n)
      else auto_baud_loop rx (Suc n) \<lparr>Code_receive = 0, Code_confirm = 0\<rparr>)"
  by (subst auto_baud_loop.simps) (simp add: auto_baud_body_def auto_baud_loop_exit)

lemma auto_baud_loop_first_pair:
  assumes "confirm_pair rx k" and "\<forall>j. n \<le> j \<and> j < k \<longrightarrow> \<not> confirm_pair rx j"
    and "n \<le> k"
  shows "auto_baud_loop rx n \<lparr>Code_receive = 0, Code_confirm = 0\<rparr> = Some (0, k + 2)
       \<and> (rx n \<noteq> CONFIRM \<longrightarrow>
            auto_baud_loop rx n \<lparr>Code_receive = 1, Code_confirm = 0\<rparr> = Some (0, k + 2))"
  using assms(2,3)
proof (induction "k - n" arbitrary: n)
  case 0
  then have "n = k" by simp
  with assms(1) show ?case
    by (simp add: confirm_pair_def auto_baud_loop_idle [of rx k] auto_baud_loop_received [of rx "Suc k"])
next
  case (Suc d)
  then have lt: "n < k" and d: "d = k - Suc n" and le: "Suc n \<le> k"
    by simp_all
  have nopair: "\<not> confirm_pair rx n"
    using Suc.prems(1) lt by simp
  have later: "\<forall>j. Suc n \<le> j \<and> j < k \<longrightarrow> \<not> confirm_pair rx j"
    using Suc.prems(1) by simp
  note IH = Suc.hyps(1) [OF d later le]
  show ?case
  proof (cases "rx n = CONFIRM")
    case True
    with nopair have "rx (Suc n) \<noteq> CONFIRM"
      by (simp add: confirm_pair_def)
    with IH True show ?thesis
      by (simp add: auto_baud_loop_idle [of rx n])
  next
    case False
    with IH show ?thesis
      by (simp add: auto_baud_loop_idle [of rx n] auto_baud_loop_received [of rx n])
  qed
qed

lemma ab_inv_body:
  assumes "ab_inv rx n f" and "(Code_receive f AND Code_confirm f) = 0"
  shows "ab_inv rx (Suc n) (auto_baud_body (rx n) f)"
  using assms
  by (auto simp: ab_inv_def auto_baud_body_def confirm_pair_def Suc_diff_Suc numeral_2_eq_2)

lemma ab_inv_exit:
  assumes "ab_inv rx n f" and "(Code_receive f AND Code_confirm f) \<noteq> 0"
  shows "\<exists>k. confirm_pair rx k"
  using assms by (auto simp: ab_inv_def)

lemma auto_baud_loop_returns_pair:
  assumes "auto_baud_loop rx n f = Some y"
  shows "ab_inv rx n f \<longrightarrow> (\<exists>k. confirm_pair rx k)"
proof (rule auto_baud_loop.raw_induct
    [where P = "\<lambda>rx n f y. ab_inv rx n f \<longrightarrow> (\<exists>k. confirm_pair rx k)", OF _ assms],
    goal_cases)
  case (1 loop rx n f y)
  show ?case
  proof
    assume inv: "ab_inv rx n f"
    show "\<exists>k. confirm_pair rx k"
    proof (cases "(Code_receive f AND Code_confirm f) = 0")
      case False
      with inv show ?thesis by (rule ab_inv_exit)
    next
      case True
      with 1(2) have call: "loop rx (Suc n) (auto_baud_body (rx n) f) = Some y"
        by simp
      from 1(1) [OF call] ab_inv_body [OF inv True] show ?thesis
        by blast
    qed
  qed
qed

lemma auto_baud_complete:
  assumes "\<exists>k. confirm_pair rx k"
  shows "\<exists>k. confirm_pair rx k \<and> (\<forall>j<k. \<not> confirm_pair rx j)
           \<and> si8900_auto_baud rx = Some (0, k + 2)"
proof -
  define k where "k = (LEAST k. confirm_pair rx k)"
  have pair: "confirm_pair rx k"
    unfolding k_def using assms by (rule LeastI_ex)
  have least: "\<forall>j<k. \<not> confirm_pair rx j"
    unfolding k_def using not_less_Least by blast
  then have first: "\<forall>j. 0 \<le> j \<and> j < k \<longrightarrow> \<not> confirm_pair rx j"
    by blast
  have "auto_baud_loop rx 0 \<lparr>Code_receive = 0, Code_confirm = 0\<rparr> = Some (0, k + 2)"
    using auto_baud_loop_first_pair [OF pair first] by blast
  then have "si8900_auto_baud rx = Some (0, k + 2)"
    unfolding si8900_auto_baud_def .
  with pair least show ?thesis
    by blast
qed

lemma auto_baud_sound:
  assumes "si8900_auto_baud rx = Some y"
  shows "\<exists>k. confirm_pair rx k"
  using auto_baud_loop_returns_pair [of rx 0 "\<lparr>Code_receive = 0, Code_confirm = 0\<rparr>" y] assms
  by (simp add: si8900_auto_baud_def ab_inv_def)

lemma auto_baud_returns_after:
  "si8900_auto_baud rx = Some (0, n)
     \<longleftrightarrow> 2 \<le> n \<and> confirm_pair rx (n - 2) \<and> (\<forall>j. j + 2 < n \<longrightarrow> \<not> confirm_pair rx j)"
proof
  assume ret: "si8900_auto_baud rx = Some (0, n)"
  then have "\<exists>k. confirm_pair rx k"
    by (rule auto_baud_sound)
  from auto_baud_complete [OF this] obtain k
    where pair: "confirm_pair rx k" and least: "\<forall>j<k. \<not> confirm_pair rx j"
      and res: "si8900_auto_baud rx = Some (0, k + 2)"
    by blast
  from ret res have n: "n = k + 2"
    by simp
  from pair least show "2 \<le> n \<and> confirm_pair rx (n - 2) \<and> (\<forall>j. j + 2 < n \<longrightarrow> \<not> confirm_pair rx j)"
    unfolding n by simp
next
  assume h: "2 \<le> n \<and> confirm_pair rx (n - 2) \<and> (\<forall>j. j + 2 < n \<longrightarrow> \<not> confirm_pair rx j)"
  then have pair: "confirm_pair rx (n - 2)"
    by blast
  from h have first: "\<forall>j. 0 \<le> j \<and> j < n - 2 \<longrightarrow> \<not> confirm_pair rx j"
    by (simp add: less_diff_conv)
  have "auto_baud_loop rx 0 \<lparr>Code_receive = 0, Code_confirm = 0\<rparr> = Some (0, n - 2 + 2)"
    using auto_baud_loop_first_pair [OF pair first] by blast
  moreover from h have "2 \<le> n"
    by blast
  then have "n - 2 + 2 = n"
    by arith
  ultimately show "si8900_auto_baud rx = Some (0, n)"
    by (simp add: si8900_auto_baud_def)
qed

lemma rx_stream_simps:
  "rx_stream (b0 # bs) b 0 = b0"
  "rx_stream (b0 # bs) b (Suc n) = rx_stream bs b n"
  "rx_stream [] b n = b"
  by (simp_all add: rx_stream_def)

lemma no_confirm_pair_55_00_55:
  "\<not> confirm_pair (rx_stream [0x55, 0x00, 0x55] 0x00) k"
proof -
  consider "k = 0" | "k = Suc 0" | "k = Suc (Suc 0)" | j where "k = Suc (Suc (Suc j))"
    by (metis not0_implies_Suc)
  then show ?thesis
    by cases (simp_all add: confirm_pair_def rx_stream_simps CONFIRM_def)
qed

section \<open>The oversampling loop\<close>

lemma unat_inc_below:
  fixes i n :: "8 word"
  assumes "i < n"
  shows "unat (i + 1) = Suc (unat i)"
proof -
  have "unat i < unat n"
    using assms by (simp add: word_less_nat_alt)
  then have "unat i + unat (1 :: 8 word) < 2 ^ LENGTH(8)"
    using unsigned_less [of n, where ?'a = nat] by simp
  then show ?thesis
    by (simp add: unat_add_lem [THEN iffD1])
qed

lemma oversample_body_counted:
  "counted buffer ref_byte i \<Longrightarrow>
   oversample_body buffer ref_byte i s =
     \<lparr>temp = Some (si8900_get_reading (buffer i) ref_byte),
      vals = vals s + of_nat (reading_at buffer ref_byte i),
      entries = entries s + 1\<rparr>"
  by (simp add: oversample_body_def counted_def reading_at_def FAILED_def Let_def)

lemma oversample_body_skipped:
  "\<not> counted buffer ref_byte i \<Longrightarrow>
   oversample_body buffer ref_byte i s =
     \<lparr>temp = Some (si8900_get_reading (buffer i) ref_byte), vals = vals s, entries = entries s\<rparr>"
  by (simp add: oversample_body_def counted_def FAILED_def Let_def)

lemma oversample_loop_result:
  "i \<le> sample_count \<Longrightarrow>
   oversample_loop buffer ref_byte sample_count i s =
     \<lparr>temp = (if i < sample_count
              then Some (si8900_get_reading (buffer (unat sample_count - 1)) ref_byte)
              else temp s),
      vals = vals s + of_nat (sum_list (map (reading_at buffer ref_byte)
               (filter (counted buffer ref_byte) [unat i..<unat sample_count]))),
      entries = entries s + of_nat (length
               (filter (counted buffer ref_byte) [unat i..<unat sample_count]))\<rparr>"
proof (induction buffer ref_byte sample_count i s rule: oversample_loop.induct)
  case (1 buffer ref_byte sample_count i s)
  show ?case
  proof (cases "i < sample_count")
    case False
    with 1(2) have "i = sample_count" by simp
    then show ?thesis
      by (subst oversample_loop.simps) simp
  next
    case True
    then have lt: "unat i < unat sample_count"
      by (simp add: word_less_nat_alt)
    have suc: "unat (i + 1) = Suc (unat i)"
      using True by (rule unat_inc_below)
    have le: "i + 1 \<le> sample_count"
      using True by (rule inc_le)
    have upt: "[unat i..<unat sample_count] = unat i # [Suc (unat i)..<unat sample_count]"
      using lt by (rule upt_conv_Cons)
    note IH = 1(1) [OF True le, unfolded suc]
    have step: "oversample_loop buffer ref_byte sample_count i s =
        oversample_loop buffer ref_byte sample_count (i + 1)
          (oversample_body buffer ref_byte (unat i) s)"
      using True by (subst oversample_loop.simps) simp
    have tmp: "\<not> i + 1 < sample_count \<Longrightarrow> unat sample_count - 1 = unat i"
    proof -
      assume "\<not> i + 1 < sample_count"
      with le have "i + 1 = sample_count" by simp
      with suc show ?thesis by simp
    qed
    show ?thesis
    proof (cases "counted buffer ref_byte (unat i)")
      case c: True
      show ?thesis
        unfolding step IH upt using True c tmp
        by (simp add: oversample_body_counted)
    next
      case c: False
      show ?thesis
        unfolding step IH upt using True c tmp
        by (simp add: oversample_body_skipped)
    qed
  qed
qed


lemma counted_length_le:
  "length (filter (counted buffer ref_byte) [0..<unat (sample_count :: 8 word)]) < 256"
proof -
  have "length (filter (counted buffer ref_byte) [0..<unat sample_count]) \<le> unat sample_count"
    using length_filter_le [of "counted buffer ref_byte" "[0..<unat sample_count]"] by simp
  moreover have "unat sample_count < 256"
    using unsigned_less [of sample_count, where ?'a = nat] by simp
  ultimately show ?thesis by simp
qed

lemma oversampled_result:
  fixes sample_count :: "8 word"
  assumes ok_def: "ok = filter (counted buffer ref_byte) [0..<unat sample_count]"
  shows "si8900_get_reading_oversampled buffer ref_byte sample_count =
     (if ok = [] then Inl DivisionByZero
      else Inr ((si8900_get_reading (buffer (unat sample_count - 1)) ref_byte)
             \<lparr>reading := of_nat (sum_list (map (reading_at buffer ref_byte) ok) mod 65536
                  div length ok)\<rparr>))"
proof -
  let ?s = "oversample_loop buffer ref_byte sample_count 0 \<lparr>temp = None, vals = 0, entries = 0\<rparr>"
  have res: "?s = \<lparr>temp = (if 0 < sample_count
              then Some (si8900_get_reading (buffer (unat sample_count - 1)) ref_byte)
              else None),
      vals = of_nat (sum_list (map (reading_at buffer ref_byte) ok)),
      entries = of_nat (length ok)\<rparr>"
    using oversample_loop_result [of 0 sample_count buffer ref_byte] by (simp add: ok_def)
  have len: "length ok < 256"
    unfolding ok_def by (rule counted_length_le)
  then have "2 ^ LENGTH(8) dvd length ok \<longleftrightarrow> length ok = 0"
    by (auto dest: dvd_imp_le)
  then have ent0: "(of_nat (length ok) :: 8 word) = 0 \<longleftrightarrow> ok = []"
    by (simp only: word_of_nat_eq_0_iff length_0_conv)
  show ?thesis
  proof (cases "ok = []")
    case True
    then show ?thesis
      by (simp add: si8900_get_reading_oversampled_def res Let_def)
  next
    case False
    then have "0 < unat sample_count"
      unfolding ok_def by (cases "unat sample_count") simp_all
    then have pos: "0 < sample_count"
      by (simp add: word_less_nat_alt)
    have uc: "(ucast (of_nat (length ok) :: 8 word) :: 16 word) = of_nat (length ok)"
      using len by (simp add: unsigned_of_nat take_bit_nat_eq_self)
    have "unat ((of_nat (sum_list (map (reading_at buffer ref_byte) ok)) :: 16 word)
           div of_nat (length ok))
        = sum_list (map (reading_at buffer ref_byte) ok) mod 65536 div length ok"
      using len by (simp add: unat_div unat_of_nat)
    then have dv: "(of_nat (sum_list (map (reading_at buffer ref_byte) ok)) :: 16 word)
           div of_nat (length ok)
        = of_nat (sum_list (map (reading_at buffer ref_byte) ok) mod 65536 div length ok)"
      by (metis of_nat_unat ucast_id)
    show ?thesis
      using False pos ent0
      by (simp add: si8900_get_reading_oversampled_def res Let_def uc dv)
  qed
qed

text \<open>The uninitialised \<open>temp\<close> is never returned: the division fails first.\<close>

lemma oversampled_never_reads_uninitialised:
  "si8900_get_reading_oversampled buffer ref_byte sample_count \<noteq> Inl UninitialisedRead"
  by (simp add: oversampled_result [OF refl])

lemma mismatch_not_counted:
  "\<not> echo_ok buffer ref_byte i \<Longrightarrow> \<not> counted buffer ref_byte i"
  by (cases "buffer i") (simp add: echo_ok_def counted_def FAILED_def)

lemma counted_is_echo_ok:
  assumes "\<forall>j \<in> set (successes buffer ref_byte sample_count). reading_at buffer ref_byte j \<noteq> 255"
  shows "filter (counted buffer ref_byte) [0..<unat sample_count]
       = successes buffer ref_byte sample_count"
  unfolding successes_def
proof (rule filter_cong [OF refl])
  fix j
  assume j: "j \<in> set [0..<unat sample_count]"
  show "counted buffer ref_byte j = echo_ok buffer ref_byte j"
  proof (cases "echo_ok buffer ref_byte j")
    case False
    then show ?thesis
      by (simp add: mismatch_not_counted)
  next
    case True
    with j have "j \<in> set (successes buffer ref_byte sample_count)"
      by (simp add: successes_def)
    with assms have "reading_at buffer ref_byte j \<noteq> 255"
      by blast
    then have "counted buffer ref_byte j"
      by (auto simp add: reading_at_def counted_def)
    with True show ?thesis by simp
  qed
qed


lemma oversampled_no_echo_divides_by_zero:
  assumes "successes buffer ref_byte sample_count = []"
  shows "si8900_get_reading_oversampled buffer ref_byte sample_count = Inl DivisionByZero"
proof -
  have "\<forall>j \<in> set (successes buffer ref_byte sample_count). reading_at buffer ref_byte j \<noteq> 255"
    using assms by simp
  then have "filter (counted buffer ref_byte) [0..<unat sample_count] = []"
    using assms by (simp add: counted_is_echo_ok)
  then show ?thesis
    by (simp add: oversampled_result [OF refl])
qed

lemma snapshots_simps:
  "snapshots (b0 # bs) b 0 = b0"
  "snapshots (b0 # bs) b (Suc n) = snapshots bs b n"
  "snapshots [] b n = b"
  by (simp_all add: snapshots_def)

section \<open>C1: decoding a packet built per the wire format\<close>

text \<open>
  Where the channel is 0 or 2 the decoder returns the channel and the reading that were
  packed. For channel 1 the low channel bit, bit 4 of data byte 1, lands on bit 11 of the
  joined packet; the mask \<open>0x0FFE\<close> of \<open>GET_READING\<close> keeps that bit, and the reading
  comes back as \<open>r + 1024\<close>.
\<close>

lemma get_reading_wire_roundtrip:
  assumes "c \<le> 2" and "r \<le> 1023"
  shows "inch (si8900_get_reading (cmd, data_byte1 c r, data_byte2 r) cmd) = c"
    and "reading (si8900_get_reading (cmd, data_byte1 c r, data_byte2 r) cmd)
           = (if c = 1 then r + 1024 else r)"
proof -
  from assms(1) have c3: "c \<le> 3"
    by (simp add: word_le_nat_alt)
  show "inch (si8900_get_reading (cmd, data_byte1 c r, data_byte2 r) cmd) = c"
    by (simp add: GET_INCH_wire [OF c3 assms(2)])
  have "unat c \<le> 2"
    using assms(1) by (simp only: word_le_nat_alt) simp
  then have "unat c = 0 \<or> unat c = 1 \<or> unat c = 2"
    by arith
  then have "unat c = unat (0 :: 8 word) \<or> unat c = unat (1 :: 8 word)
      \<or> unat c = unat (2 :: 8 word)"
    by simp
  then have c: "c = 0 \<or> c = 1 \<or> c = 2"
    by (simp only: word_unat_eq_iff)
  have or_add: "r OR 1024 = r + 1024"
  proof -
    have "r AND 1024 = 0"
      by (rule word16_eqI) (simp add: bit_simps reading_high_bits [OF assms(2)])
    then show ?thesis
      by (simp add: disjunctive_add_eq_or)
  qed
  from c show "reading (si8900_get_reading (cmd, data_byte1 c r, data_byte2 r) cmd)
           = (if c = 1 then r + 1024 else r)"
    by (auto simp add: GET_READING_wire [OF assms(2)] or_add)
qed

text \<open>
  C1. The claim: for every channel \<open>c\<close> in 0, 1, 2 and every reading \<open>r\<close> in 0..1023, the
  packet built per the wire format decodes to \<open>inch = c\<close> and \<open>reading = r\<close>. The code at
  channel 1 and reading 0, with the command byte \<open>GP_SINGLE_READ_1 = 0xD2\<close>: the data
  bytes are \<open>0x90\<close> and \<open>0x00\<close>, and \<open>si8900_get_reading\<close> returns \<open>inch = 1\<close> and
  \<open>reading = 1024\<close>, not 0.
\<close>

theorem get_reading_channel1_reading_off_by_1024:
  "GP_SINGLE_READ_1 = 0xD2 \<and> data_byte1 1 0 = 0x90 \<and> data_byte2 0 = 0x00
   \<and> si8900_get_reading (0xD2, 0x90, 0x00) 0xD2
       = \<lparr>cmd_byte = 0xD2, inch = 1, reading = 1024\<rparr>"
  by (simp add: GP_SINGLE_READ_1_def INCH_1_def REF_0_def MODE_1_def PGA_0_def
      data_byte1_def data_byte2_def GET_INCH_def GET_READING_def PACKET_JOIN_def)

section \<open>C2: two consecutive confirmation bytes\<close>

text \<open>
  C2. \<open>si8900_auto_baud\<close> returns success after reading \<open>n\<close> bytes exactly when the last
  two bytes read are both the confirmation byte \<open>0x55\<close> and no two consecutive
  confirmation bytes came earlier; whenever it returns, the value is 0. A received byte
  other than \<open>0x55\<close> sets \<open>Code_receive\<close> and \<open>Code_confirm\<close> to zero; a single \<open>0x55\<close>
  sets only \<open>Code_receive\<close>, so the loop goes on; and on a stream that starts confirm,
  non-confirm, confirm the function has not returned after one, two or three bytes.
\<close>

theorem auto_baud_two_consecutive_confirms:
  "(si8900_auto_baud rx = Some (0, n)
      \<longleftrightarrow> 2 \<le> n \<and> confirm_pair rx (n - 2) \<and> (\<forall>j. j + 2 < n \<longrightarrow> \<not> confirm_pair rx j))
   \<and> (\<forall>y. si8900_auto_baud rx = Some y \<longrightarrow> fst y = 0)
   \<and> (hold_value \<noteq> CONFIRM \<longrightarrow>
        auto_baud_body hold_value f = \<lparr>Code_receive = 0, Code_confirm = 0\<rparr>)
   \<and> auto_baud_body CONFIRM \<lparr>Code_receive = 0, Code_confirm = 0\<rparr>
        = \<lparr>Code_receive = 1, Code_confirm = 0\<rparr>
   \<and> (rx 0 = CONFIRM \<and> rx 1 \<noteq> CONFIRM \<and> rx 2 = CONFIRM \<longrightarrow>
        si8900_auto_baud rx \<noteq> Some (0, 1) \<and> si8900_auto_baud rx \<noteq> Some (0, 2)
        \<and> si8900_auto_baud rx \<noteq> Some (0, 3))"
proof (intro conjI allI impI)
  show "si8900_auto_baud rx = Some (0, n)
      \<longleftrightarrow> 2 \<le> n \<and> confirm_pair rx (n - 2) \<and> (\<forall>j. j + 2 < n \<longrightarrow> \<not> confirm_pair rx j)"
    by (rule auto_baud_returns_after)
next
  fix y
  assume ret: "si8900_auto_baud rx = Some y"
  then have "\<exists>k. confirm_pair rx k"
    by (rule auto_baud_sound)
  from auto_baud_complete [OF this] ret show "fst y = 0"
    by auto
next
  assume "hold_value \<noteq> CONFIRM"
  then show "auto_baud_body hold_value f = \<lparr>Code_receive = 0, Code_confirm = 0\<rparr>"
    by (simp add: auto_baud_body_def)
next
  show "auto_baud_body CONFIRM \<lparr>Code_receive = 0, Code_confirm = 0\<rparr>
        = \<lparr>Code_receive = 1, Code_confirm = 0\<rparr>"
    by (simp add: auto_baud_body_def)
next
  assume "rx 0 = CONFIRM \<and> rx 1 \<noteq> CONFIRM \<and> rx 2 = CONFIRM"
  show "si8900_auto_baud rx \<noteq> Some (0, 1)"
    by (simp add: auto_baud_returns_after)
next
  assume h: "rx 0 = CONFIRM \<and> rx 1 \<noteq> CONFIRM \<and> rx 2 = CONFIRM"
  then show "si8900_auto_baud rx \<noteq> Some (0, 2)"
    by (simp add: auto_baud_returns_after confirm_pair_def)
next
  assume h: "rx 0 = CONFIRM \<and> rx 1 \<noteq> CONFIRM \<and> rx 2 = CONFIRM"
  have "\<not> confirm_pair rx (3 - 2)"
    using h by (simp add: confirm_pair_def)
  then show "si8900_auto_baud rx \<noteq> Some (0, 3)"
    unfolding auto_baud_returns_after by blast
qed

text \<open>
  The stream \<open>0x55, 0x00, 0x55, 0x55\<close> followed by zeros: success after the fourth byte
  and not after the third, and the byte \<open>0x00\<close> clears a set \<open>Code_receive\<close>.
\<close>

theorem auto_baud_two_consecutive_confirms_witness:
  "si8900_auto_baud (rx_stream [0x55, 0x00, 0x55, 0x55] 0x00) = Some (0, 4)
   \<and> auto_baud_body 0x00 \<lparr>Code_receive = 1, Code_confirm = 0\<rparr>
        = \<lparr>Code_receive = 0, Code_confirm = 0\<rparr>
   \<and> si8900_auto_baud (rx_stream [0x55, 0x00, 0x55, 0x55] 0x00) \<noteq> Some (0, 3)"
proof -
  let ?rx = "rx_stream [0x55, 0x00, 0x55, 0x55] 0x00"
  have p2: "confirm_pair ?rx (4 - 2)"
    by (simp add: confirm_pair_def rx_stream_def CONFIRM_def)
  have np: "\<forall>j. j + 2 < 4 \<longrightarrow> \<not> confirm_pair ?rx j"
  proof (intro allI impI)
    fix j :: nat
    assume "j + 2 < 4"
    then consider "j = 0" | "j = Suc 0" by linarith
    then show "\<not> confirm_pair ?rx j"
      by cases (simp_all add: confirm_pair_def rx_stream_simps CONFIRM_def)
  qed
  have ne: "(0x00 :: 8 word) \<noteq> CONFIRM"
    by (simp add: CONFIRM_def)
  have start: "?rx 0 = CONFIRM \<and> ?rx 1 \<noteq> CONFIRM \<and> ?rx 2 = CONFIRM"
    by (simp add: rx_stream_def CONFIRM_def)
  from auto_baud_two_consecutive_confirms
    [of ?rx 4 "0x00" "\<lparr>Code_receive = 1, Code_confirm = 0\<rparr>"] p2 np ne start
  show ?thesis
    by simp
qed

section \<open>C3: no attempt succeeds\<close>

text \<open>
  C3. The claim: when every attempt fails the echo validation,
  \<open>si8900_get_reading_oversampled\<close> returns FAILED in \<open>inch\<close> and \<open>reading\<close> and does not
  divide by zero. The code with three attempts on the buffer \<open>0x00, 0x90, 0x02\<close> and the
  reference byte \<open>0xD2\<close>: no attempt passes, \<open>entries\<close> is still zero after the loop and
  \<open>vals/entries\<close> divides by zero.
\<close>

theorem oversampled_all_mismatched_divides_by_zero:
  "successes (snapshots [] (0x00, 0x90, 0x02)) 0xD2 3 = []
   \<and> si8900_get_reading_oversampled (snapshots [] (0x00, 0x90, 0x02)) 0xD2 3
       = Inl DivisionByZero"
  by (simp add: successes_def echo_ok_def snapshots_simps si8900_get_reading_oversampled_def
      oversample_loop.simps oversample_body_def FAILED_def)

section \<open>C4: bit\_reverse\<close>

text \<open>
  C4. The claim: \<open>bit_reverse\<close> reverses the 16 bits, so that applying it twice gives the
  input back, \<open>bit_reverse(0x0001) = 0x8000\<close> and \<open>bit_reverse(0x8000) = 0x0001\<close>. The
  code: \<open>bit_reverse(0x0001)\<close> is \<open>0x0002\<close> and \<open>bit_reverse(0x0002)\<close> is \<open>0x0005\<close>, so
  two applications take 1 to 5; on \<open>0x8000\<close> the loop runs 15 times, \<open>size\<close> wraps from
  1 down to 242 and the final shift by 242 has no defined result.
\<close>

theorem bit_reverse_not_a_reversal:
  "bit_reverse 0x0001 = Inr 0x0002 \<and> bit_reverse 0x0002 = Inr 0x0005
   \<and> bit_reverse 0x8000 = Inl ShiftOutOfRange"
  by (simp add: bit_reverse_def bit_reverse_loop.simps)

section \<open>C5: the mean over successful attempts\<close>

text \<open>
  The 16 bit accumulator: 65 attempts that all decode to 1023 sum to 66495, which
  \<open>vals\<close> holds as 959, and the result is \<open>959 div 65 = 14\<close>.
\<close>

lemma oversampled_sum_wraps:
  "si8900_get_reading_oversampled (snapshots [] (0xC2, 0x8F, 0x7E)) 0xC2 65
     = Inr \<lparr>cmd_byte = 0xC2, inch = 0, reading = 14\<rparr>"
proof -
  let ?b = "snapshots [] (0xC2, 0x8F, 0x7E)"
  have cnt: "counted ?b 0xC2 = (\<lambda>i. True)"
    by (rule ext) (simp add: counted_def snapshots_def GET_READING_def PACKET_JOIN_def)
  have val: "reading_at ?b 0xC2 = (\<lambda>i. 1023)"
    by (rule ext) (simp add: reading_at_def snapshots_def GET_READING_def PACKET_JOIN_def)
  have ok: "[0..<65] = filter (counted ?b 0xC2) [0..<unat (65 :: 8 word)]"
    by (simp add: cnt)
  have sum: "sum_list (map (reading_at ?b 0xC2) [0..<65]) = 66495"
    by (simp add: val sum_list_triv)
  have ne: "[0..<65] \<noteq> ([] :: nat list)"
    by simp
  show ?thesis
    unfolding oversampled_result [OF ok] sum
    using ne by (simp add: snapshots_def GET_INCH_def GET_READING_def PACKET_JOIN_def)
qed

text \<open>
  C5. The claim: when all attempts pass the echo validation, the returned reading is the
  truncated mean of all decoded readings. The code with two attempts that both pass and
  decode to 255 and 1: the attempt that decodes to 255 is taken for a failed one
  (\<open>temp.reading != FAILED\<close> is false for it), and the result is \<open>1 div 1 = 1\<close>, while
  the mean of 255 and 1 is 128. With two attempts on one unchanged buffer that decodes
  to 255, nothing is counted and the call divides by zero. With 65 attempts on one
  unchanged buffer that decodes to 1023, the sum wraps and the result is 14.
\<close>

theorem oversampled_mean_drops_reading_255:
  "successes (snapshots [(0xC2, 0x83, 0x7E), (0xC2, 0x80, 0x02)] (0xC2, 0x80, 0x02)) 0xC2 2
     = [0, 1]
   \<and> reading (si8900_get_reading (0xC2, 0x83, 0x7E) 0xC2) = 255
   \<and> reading (si8900_get_reading (0xC2, 0x80, 0x02) 0xC2) = 1
   \<and> si8900_get_reading_oversampled
        (snapshots [(0xC2, 0x83, 0x7E), (0xC2, 0x80, 0x02)] (0xC2, 0x80, 0x02)) 0xC2 2
       = Inr \<lparr>cmd_byte = 0xC2, inch = 0, reading = 1\<rparr>
   \<and> (255 + 1) div 2 = (128 :: nat)
   \<and> successes (snapshots [] (0xC2, 0x83, 0x7E)) 0xC2 2 = [0, 1]
   \<and> si8900_get_reading_oversampled (snapshots [] (0xC2, 0x83, 0x7E)) 0xC2 2
       = Inl DivisionByZero
   \<and> reading (si8900_get_reading (0xC2, 0x8F, 0x7E) 0xC2) = 1023
   \<and> si8900_get_reading_oversampled (snapshots [] (0xC2, 0x8F, 0x7E)) 0xC2 65
       = Inr \<lparr>cmd_byte = 0xC2, inch = 0, reading = 14\<rparr>"
  by (simp add: successes_def echo_ok_def snapshots_def si8900_get_reading_oversampled_def
      oversample_loop.simps oversample_body_def FAILED_def GET_INCH_def GET_READING_def
      PACKET_JOIN_def upt_rec oversampled_sum_wraps)

section \<open>C6: the FAILED sentinel and valid results\<close>

text \<open>
  C6, as stated: no echo-validated call returns \<open>0xFF\<close> in \<open>reading\<close> or in \<open>inch\<close>. The
  packet \<open>0xC2, 0x83, 0x7E\<close> passes the validation against \<open>GP_SINGLE_READ_0 = 0xC2\<close> and
  carries the reading 255: the call returns \<open>reading = 0xFF\<close>, the sentinel.
\<close>

theorem get_reading_valid_reading_255:
  "GP_SINGLE_READ_0 = 0xC2
   \<and> fst ((0xC2, 0x83, 0x7E) :: buffer) = 0xC2
   \<and> si8900_get_reading (0xC2, 0x83, 0x7E) 0xC2 = \<lparr>cmd_byte = 0xC2, inch = 0, reading = 0xFF\<rparr>
   \<and> reading (si8900_get_reading (0xC2, 0x83, 0x7E) 0xC2) = ucast FAILED"
  by (simp add: GP_SINGLE_READ_0_def INCH_0_def REF_0_def MODE_1_def PGA_0_def
      GET_INCH_def GET_READING_def PACKET_JOIN_def FAILED_def)

text \<open>
  C6, amended. The FAILED sentinel \<open>0xFF\<close> is distinguishable from every valid decode
  result in the \<open>inch\<close> field: no successfully echo-validated call to
  \<open>si8900_get_reading\<close> returns an \<open>inch\<close> equal to \<open>0xFF\<close>. Nothing is said of the
  \<open>reading\<close> field, where the valid reading 255 is \<open>0xFF\<close>.
\<close>

theorem get_reading_valid_inch_not_failed:
  assumes "fst buf = ref_byte"
  shows "inch (si8900_get_reading buf ref_byte) \<noteq> FAILED"
proof -
  obtain b0 b1 b2 where buf: "buf = (b0, b1, b2)"
    by (cases buf)
  have "GET_INCH b1 \<noteq> FAILED"
    using GET_INCH_le [of b1] by (auto simp add: FAILED_def word_le_nat_alt)
  with assms show ?thesis
    by (simp add: buf)
qed

text \<open>
  The packet \<open>0xE2, 0xAF, 0x7E\<close> against \<open>GP_SINGLE_READ_2\<close>: the channel decoded is 2.
\<close>

theorem get_reading_valid_inch_not_failed_witness:
  "fst ((0xE2, 0xAF, 0x7E) :: buffer) = GP_SINGLE_READ_2
   \<and> inch (si8900_get_reading (0xE2, 0xAF, 0x7E) GP_SINGLE_READ_2) = 2
   \<and> inch (si8900_get_reading (0xE2, 0xAF, 0x7E) GP_SINGLE_READ_2) \<noteq> FAILED"
proof -
  have g: "GP_SINGLE_READ_2 = 0xE2"
    by (simp add: GP_SINGLE_READ_2_def INCH_2_def REF_0_def MODE_1_def PGA_0_def)
  have v: "inch (si8900_get_reading (0xE2, 0xAF, 0x7E) 0xE2) = 2"
    by (simp add: GET_INCH_def)
  from get_reading_valid_inch_not_failed [of "(0xE2, 0xAF, 0x7E)" GP_SINGLE_READ_2] g v
  show ?thesis
    by simp
qed

section \<open>C7: the fields of the command byte\<close>

text \<open>
  C7, as stated: MODE is bit 2, the stream constant is \<open>0x04\<close> and bit 1 is always zero.
  In si8900.h \<open>MODE_1\<close> is \<open>0x02\<close>: the command byte with \<open>MODE_1\<close> has bit 1 set and
  bit 2 clear.
\<close>

theorem mode_field_is_bit_1:
  "MODE_1 = 0x02 \<and> MODE_1 \<noteq> 0x04
   \<and> bit (cmd_byte_of PGA_0 MODE_1 REF_0 INCH_0) 1
   \<and> \<not> bit (cmd_byte_of PGA_0 MODE_1 REF_0 INCH_0) 2"
  by (simp add: cmd_byte_of_def PGA_0_def MODE_1_def REF_0_def INCH_0_def)

text \<open>
  C7, amended. In a command byte assembled from one constant of each field, MODE is
  bit 1 (\<open>MODE_1 = 0x02\<close>), bit 2 is unused and always zero, VREF is bit 3
  (\<open>REF_1 = 0x08\<close>), PGA is bit 0 (\<open>PGA_1 = 0x01\<close>) and bits 7 and 6 are set.
\<close>

theorem cmd_byte_fields:
  assumes "pga \<in> {PGA_0, PGA_1}" and "mode \<in> {MODE_0, MODE_1}"
    and "ref \<in> {REF_0, REF_1}" and "ch \<in> {INCH_0, INCH_1, INCH_2}"
  shows "(bit (cmd_byte_of pga mode ref ch) 1 \<longleftrightarrow> mode = MODE_1)
       \<and> \<not> bit (cmd_byte_of pga mode ref ch) 2
       \<and> (bit (cmd_byte_of pga mode ref ch) 3 \<longleftrightarrow> ref = REF_1)
       \<and> (bit (cmd_byte_of pga mode ref ch) 0 \<longleftrightarrow> pga = PGA_1)
       \<and> bit (cmd_byte_of pga mode ref ch) 7 \<and> bit (cmd_byte_of pga mode ref ch) 6
       \<and> MODE_1 = 0x02 \<and> REF_1 = 0x08 \<and> PGA_1 = 0x01"
  using assms
  by (auto simp add: cmd_byte_of_def PGA_0_def PGA_1_def MODE_0_def MODE_1_def REF_0_def
      REF_1_def INCH_0_def INCH_1_def INCH_2_def bit_simps)

text \<open>Gain 1, stream mode, reference VDD, channel 2: the command byte \<open>0xE3\<close>.\<close>

theorem cmd_byte_fields_witness:
  "PGA_1 \<in> {PGA_0, PGA_1} \<and> MODE_1 \<in> {MODE_0, MODE_1} \<and> REF_0 \<in> {REF_0, REF_1}
   \<and> INCH_2 \<in> {INCH_0, INCH_1, INCH_2}
   \<and> cmd_byte_of PGA_1 MODE_1 REF_0 INCH_2 = 0xE3
   \<and> bit (cmd_byte_of PGA_1 MODE_1 REF_0 INCH_2) 1
   \<and> \<not> bit (cmd_byte_of PGA_1 MODE_1 REF_0 INCH_2) 2
   \<and> \<not> bit (cmd_byte_of PGA_1 MODE_1 REF_0 INCH_2) 3
   \<and> bit (cmd_byte_of PGA_1 MODE_1 REF_0 INCH_2) 0"
proof -
  have e: "cmd_byte_of PGA_1 MODE_1 REF_0 INCH_2 = 0xE3"
    by (simp add: cmd_byte_of_def PGA_1_def MODE_1_def REF_0_def INCH_2_def)
  have d: "REF_0 \<noteq> REF_1"
    by (simp add: REF_0_def REF_1_def)
  from cmd_byte_fields [of PGA_1 MODE_1 REF_0 INCH_2] e d show ?thesis
    by simp
qed

section \<open>C8: echo mismatch\<close>

text \<open>
  C8. For every 3-byte buffer and every reference byte: when the first byte of the buffer
  differs from the reference byte, \<open>si8900_get_reading\<close> returns a struct whose \<open>inch\<close>
  and \<open>reading\<close> are both the FAILED sentinel (\<open>0xFF\<close>, as a 16 bit value in \<open>reading\<close>),
  whatever the mismatching byte is.
\<close>

theorem get_reading_mismatch_failed:
  assumes "fst buf \<noteq> ref_byte"
  shows "inch (si8900_get_reading buf ref_byte) = FAILED
       \<and> reading (si8900_get_reading buf ref_byte) = ucast FAILED
       \<and> reading (si8900_get_reading buf ref_byte) = 0xFF"
  using assms by (cases buf) (simp add: FAILED_def)

text \<open>A buffer whose first byte is \<open>0x00\<close> against \<open>GP_SINGLE_READ_1\<close>.\<close>

theorem get_reading_mismatch_failed_witness:
  "fst ((0x00, 0x90, 0x02) :: buffer) \<noteq> GP_SINGLE_READ_1
   \<and> inch (si8900_get_reading (0x00, 0x90, 0x02) GP_SINGLE_READ_1) = 0xFF
   \<and> reading (si8900_get_reading (0x00, 0x90, 0x02) GP_SINGLE_READ_1) = 0xFF"
  using get_reading_mismatch_failed [of "(0x00, 0x90, 0x02)" GP_SINGLE_READ_1]
  by (simp add: FAILED_def GP_SINGLE_READ_1_def INCH_1_def REF_0_def MODE_1_def PGA_0_def)

section \<open>C9: the handshake has no timeout\<close>

text \<open>
  C9. \<open>si8900_auto_baud\<close> returns, with the value 0, if and only if the incoming byte
  stream holds two consecutive confirmation bytes \<open>0x55\<close> somewhere; on a stream without
  two consecutive \<open>0x55\<close> it never returns, however long the stream is read.
\<close>

theorem auto_baud_returns_iff_confirm_pair:
  "((\<exists>n. si8900_auto_baud rx = Some (0, n)) \<longleftrightarrow> (\<exists>k. confirm_pair rx k))
   \<and> (si8900_auto_baud rx = None \<longleftrightarrow> (\<forall>k. \<not> confirm_pair rx k))"
proof (intro conjI iffI)
  assume "\<exists>n. si8900_auto_baud rx = Some (0, n)"
  then show "\<exists>k. confirm_pair rx k"
    using auto_baud_sound by blast
next
  assume "\<exists>k. confirm_pair rx k"
  from auto_baud_complete [OF this] show "\<exists>n. si8900_auto_baud rx = Some (0, n)"
    by blast
next
  assume none: "si8900_auto_baud rx = None"
  show "\<forall>k. \<not> confirm_pair rx k"
  proof (intro allI notI)
    fix k
    assume "confirm_pair rx k"
    then have "\<exists>k. confirm_pair rx k" ..
    from auto_baud_complete [OF this] none show False
      by auto
  qed
next
  assume no: "\<forall>k. \<not> confirm_pair rx k"
  show "si8900_auto_baud rx = None"
  proof (cases "si8900_auto_baud rx")
    case None
    then show ?thesis .
  next
    case (Some y)
    then have "\<exists>k. confirm_pair rx k"
      by (rule auto_baud_sound)
    with no show ?thesis by blast
  qed
qed

text \<open>
  The stream \<open>0x55, 0x00, 0x55\<close> followed by zeros never lets the function return; the
  stream \<open>0x00, 0x55, 0x55\<close> does.
\<close>

theorem auto_baud_returns_iff_confirm_pair_witness:
  "si8900_auto_baud (rx_stream [0x55, 0x00, 0x55] 0x00) = None
   \<and> (\<exists>n. si8900_auto_baud (rx_stream [0x00, 0x55, 0x55] 0x00) = Some (0, n))"
proof -
  have "\<forall>k. \<not> confirm_pair (rx_stream [0x55, 0x00, 0x55] 0x00) k"
    using no_confirm_pair_55_00_55 by blast
  moreover have "confirm_pair (rx_stream [0x00, 0x55, 0x55] 0x00) 1"
    by (simp add: confirm_pair_def rx_stream_def CONFIRM_def)
  then have "\<exists>k. confirm_pair (rx_stream [0x00, 0x55, 0x55] 0x00) k" ..
  ultimately show ?thesis
    using auto_baud_returns_iff_confirm_pair [of "rx_stream [0x55, 0x00, 0x55] 0x00"]
      auto_baud_returns_iff_confirm_pair [of "rx_stream [0x00, 0x55, 0x55] 0x00"]
    by blast
qed

section \<open>C10: the channel of an oversampled reading\<close>

text \<open>
  Whenever \<open>si8900_get_reading_oversampled\<close> returns, the loop body ran at least once
  and the \<open>inch\<close> returned is the one decoded on the final attempt.
\<close>

lemma oversampled_returns_last_inch:
  assumes "si8900_get_reading_oversampled buffer ref_byte sample_count = Inr t"
  shows "0 < unat sample_count"
    and "inch t = inch (si8900_get_reading (buffer (unat sample_count - 1)) ref_byte)"
proof -
  define ok where "ok = filter (counted buffer ref_byte) [0..<unat sample_count]"
  from assms have ne: "ok \<noteq> []"
    by (auto simp add: oversampled_result [OF ok_def])
  then show "0 < unat sample_count"
    unfolding ok_def by (cases "unat sample_count") simp_all
  from assms ne
  show "inch t = inch (si8900_get_reading (buffer (unat sample_count - 1)) ref_byte)"
    by (auto simp add: oversampled_result [OF ok_def])
qed


end
